theory Spec2Isabelle
  imports Complex_Main "HOL-Library.Sublist"
begin

section \<open>GPS track to OBJ mesh: the data model\<close>

text \<open>
  The development follows \<^verbatim>\<open>src/python/gps-to-obj\<close>: \<^verbatim>\<open>gps_track.py\<close> (points,
  segments, tracks, the smoothing filter), \<^verbatim>\<open>gps_to_obj.py\<close> (configuration, vertex
  generation, polygon indexing, the conversion run) and \<^verbatim>\<open>main.py\<close> (the guard of the
  caller). Python floats are idealised as \<^typ>\<open>real\<close>, Python integers are \<^typ>\<open>int\<close>, and
  every exception the code can raise on a well-typed track is a value of \<open>error\<close>. Reading
  track files, parsing the JSON configuration and the file system are outside the model:
  a run returns the mesh it hands to the writer.
\<close>

datatype error = IndexError | ValueError

record GPSPoint =
  latitude :: real
  longitude :: real
  elevation :: real

record GPSTrackSegment =
  points :: "GPSPoint list"

record GPSTrack =
  segments :: "GPSTrackSegment list"

record GPSTrackConfig =
  elevation_multiplier :: real
  smoothing_interval :: real
  base_height :: real
  path_width :: real

type_synonym vertex = "real \<times> real \<times> real"

record ObjFile =
  vertices :: "vertex list"
  polygons :: "int list list"

text \<open>
  The geodesic library (\<^verbatim>\<open>pyproj.Geod.inv\<close>) is external: it is a parameter of every
  function that calls it. It takes longitude and latitude of two points and returns the
  forward bearing in degrees, the back bearing and the distance in metres.
\<close>

type_synonym geod_inv = "real \<Rightarrow> real \<Rightarrow> real \<Rightarrow> real \<Rightarrow> real \<times> real \<times> real"

section \<open>Geodesy and the smoothing filter\<close>

text \<open>\<^verbatim>\<open>math.radians\<close>.\<close>

definition radians :: "real \<Rightarrow> real" where
  "radians deg = deg * pi / 180"

text \<open>\<^verbatim>\<open>GPSPoint.angle_and_distance_to\<close>: the rotated bearing in radians and the distance.\<close>

definition angle_and_distance_to :: "geod_inv \<Rightarrow> GPSPoint \<Rightarrow> GPSPoint \<Rightarrow> real \<times> real" where
  "angle_and_distance_to geod self other =
     (case geod (longitude self) (latitude self) (longitude other) (latitude other) of
        (bearing, _, distance) \<Rightarrow> (radians (- 90 - bearing), distance))"

text \<open>
  \<^verbatim>\<open>GPSTrackSegment.filter_by_smoothing_interval\<close>. The loop over
  \<^verbatim>\<open>range(1, len(self.points))\<close> visits the points after the first in order; \<open>kept\<close> is
  the list \<^verbatim>\<open>points\<close> of the source, which is never empty inside the loop, and
  \<^verbatim>\<open>points[-1]\<close> is its last element. \<^verbatim>\<open>self.points[0]\<close> raises IndexError on an empty
  segment.
\<close>

fun filter_loop :: "geod_inv \<Rightarrow> real \<Rightarrow> GPSPoint list \<Rightarrow> GPSPoint list \<Rightarrow> GPSPoint list" where
  "filter_loop geod smoothing kept [] = kept"
| "filter_loop geod smoothing kept (p # rest) =
     (if snd (angle_and_distance_to geod (last kept) p) > smoothing
      then filter_loop geod smoothing (kept @ [p]) rest
      else filter_loop geod smoothing kept rest)"

definition filter_by_smoothing_interval ::
  "geod_inv \<Rightarrow> GPSTrackSegment \<Rightarrow> real \<Rightarrow> error + GPSTrackSegment" where
  "filter_by_smoothing_interval geod self smoothing =
     (case points self of
        [] \<Rightarrow> Inl IndexError
      | p0 # rest \<Rightarrow> Inr \<lparr>points = filter_loop geod smoothing [p0] rest\<rparr>)"

text \<open>
  \<^verbatim>\<open>GPSTrackSegment.__len__\<close>, \<^verbatim>\<open>GPSTrackSegment.min_elevation\<close>, \<^verbatim>\<open>GPSTrack.__len__\<close> and
  \<^verbatim>\<open>GPSTrack.min_elevation\<close>. Python's \<^verbatim>\<open>min\<close> of an empty iterable raises ValueError;
  the generator of the track's minimum stops at the first segment that raises.
\<close>

definition segment_len :: "GPSTrackSegment \<Rightarrow> nat" where
  "segment_len self = length (points self)"

definition segment_min_elevation :: "GPSTrackSegment \<Rightarrow> error + real" where
  "segment_min_elevation self =
     (case map elevation (points self) of
        [] \<Rightarrow> Inl ValueError
      | e # es \<Rightarrow> Inr (fold min es e))"

fun sequence_results :: "(error + 'a) list \<Rightarrow> error + 'a list" where
  "sequence_results [] = Inr []"
| "sequence_results (r # rs) =
     (case r of
        Inl e \<Rightarrow> Inl e
      | Inr x \<Rightarrow> (case sequence_results rs of Inl e \<Rightarrow> Inl e | Inr xs \<Rightarrow> Inr (x # xs)))"

definition track_len :: "GPSTrack \<Rightarrow> nat" where
  "track_len self = sum_list (map segment_len (segments self))"

definition track_min_elevation :: "GPSTrack \<Rightarrow> error + real" where
  "track_min_elevation self =
     (case sequence_results (map segment_min_elevation (segments self)) of
        Inl e \<Rightarrow> Inl e
      | Inr [] \<Rightarrow> Inl ValueError
      | Inr (m # ms) \<Rightarrow> Inr (fold min ms m))"

section \<open>Vertices\<close>

text \<open>\<^verbatim>\<open>move_point\<close> and \<^verbatim>\<open>itertools.pairwise\<close>.\<close>

definition move_point :: "real \<times> real \<Rightarrow> real \<Rightarrow> real \<Rightarrow> real \<times> real" where
  "move_point point angle distance =
     (case point of (x, y) \<Rightarrow>
        (let dx = sin angle * distance; dy = cos angle * distance in (x + dx, y + dy)))"

definition pairwise :: "'a list \<Rightarrow> ('a \<times> 'a) list" where
  "pairwise xs = zip xs (tl xs)"

text \<open>\<^verbatim>\<open>GPSTrackToOBJ._get_vertices_for_point\<close>: the four vertices of one cross-section.\<close>

definition get_vertices_for_point ::
  "GPSTrackConfig \<Rightarrow> real \<times> real \<Rightarrow> real \<Rightarrow> real \<Rightarrow> vertex list" where
  "get_vertices_for_point config location angle elev =
     (case location of (x, y) \<Rightarrow>
        (let half_width = path_width config / 2;
             dx = cos angle * half_width;
             dy = sin angle * half_width * - 1
         in [(x + dx, y + dy, 0), (x + dx, y + dy, elev),
             (x - dx, y - dy, elev), (x - dx, y - dy, 0)]))"

text \<open>
  \<^verbatim>\<open>GPSTrackToOBJ._get_vertices_for_segment\<close>: one cross-section for the first point of
  every consecutive pair.
\<close>

definition get_vertices_for_segment ::
  "geod_inv \<Rightarrow> GPSTrackConfig \<Rightarrow> GPSTrackSegment \<Rightarrow> GPSPoint \<Rightarrow> real \<Rightarrow> vertex list" where
  "get_vertices_for_segment geod config segment global_origin min_elevation =
     concat (map (\<lambda>(from_point, to_point).
         (let angle = fst (angle_and_distance_to geod from_point to_point);
              elev = base_height config
                     + (elevation from_point - min_elevation) * elevation_multiplier config;
              (angle_to_origin, distance_to_origin) =
                 angle_and_distance_to geod global_origin from_point;
              location = move_point (0, 0) angle_to_origin distance_to_origin
          in get_vertices_for_point config location angle elev))
       (pairwise (points segment)))"

section \<open>The mesh indexer\<close>

text \<open>
  \<^verbatim>\<open>range(start, stop, step)\<close> for a positive step, as a list. The source only uses
  \<^verbatim>\<open>range(0, vertex_count - 8, 4)\<close> and \<^verbatim>\<open>range(1, 5)\<close>.
\<close>

function py_range :: "int \<Rightarrow> int \<Rightarrow> int \<Rightarrow> int list" where
  "py_range start stop step =
     (if 0 < step \<and> start < stop then start # py_range (start + step) stop step else [])"
  by pat_completeness auto
termination
  by (relation "measure (\<lambda>(start, stop, step). nat (stop - start))") auto

declare py_range.simps [simp del]

text \<open>
  \<^verbatim>\<open>GPSTrackToOBJ._get_polygons_for_vertices\<close>: the starting cap, the side faces for
  \<open>i\<close> in \<^verbatim>\<open>range(0, vertex_count - 8, 4)\<close> and \<open>j\<close> in \<^verbatim>\<open>range(1, 5)\<close>, the ending cap,
  every index shifted by the segment offset.
\<close>

definition get_polygons_for_vertices :: "int \<Rightarrow> int \<Rightarrow> int list list" where
  "get_polygons_for_vertices vertex_count segment_offset =
     map (\<lambda>vertex_list. map (\<lambda>i. i + segment_offset) vertex_list)
       ([[1, 2, 3, 4]]
        @ concat (map (\<lambda>i. map (\<lambda>j. [i + (j + 1) mod 4, i + j, i + 4 + j, i + 4 + (j + 1) mod 4])
                              (py_range 1 5 1))
                      (py_range 0 (vertex_count - 8) 4))
        @ [[vertex_count - 3, vertex_count - 2, vertex_count - 1, vertex_count]])"

section \<open>The conversion run\<close>

text \<open>\<^verbatim>\<open>ObjFile.add_vertices\<close> and \<^verbatim>\<open>ObjFile.add_polygons\<close>.\<close>

definition add_vertices :: "ObjFile \<Rightarrow> vertex list \<Rightarrow> ObjFile" where
  "add_vertices self vs = self\<lparr>vertices := vertices self @ vs\<rparr>"

definition add_polygons :: "ObjFile \<Rightarrow> int list list \<Rightarrow> ObjFile" where
  "add_polygons self ps = self\<lparr>polygons := polygons self @ ps\<rparr>"

text \<open>
  The loop of \<^verbatim>\<open>GPSTrackToOBJ.run\<close> over the segments, with the state it updates: the
  segment offset and the mesh buffer.
\<close>

fun run_segments ::
  "geod_inv \<Rightarrow> GPSTrackConfig \<Rightarrow> GPSPoint \<Rightarrow> real \<Rightarrow> GPSTrackSegment list
     \<Rightarrow> int \<Rightarrow> ObjFile \<Rightarrow> error + ObjFile" where
  "run_segments geod config global_origin min_elevation [] segment_offset obj_file = Inr obj_file"
| "run_segments geod config global_origin min_elevation (segment # rest) segment_offset obj_file =
     (case filter_by_smoothing_interval geod segment (smoothing_interval config) of
        Inl e \<Rightarrow> Inl e
      | Inr filtered_segment \<Rightarrow>
          (let vertices_for_segment =
                 get_vertices_for_segment geod config filtered_segment global_origin min_elevation;
               obj_file1 = add_vertices obj_file vertices_for_segment;
               polygons_for_segment =
                 get_polygons_for_vertices (int (length vertices_for_segment)) segment_offset;
               obj_file2 = add_polygons obj_file1 polygons_for_segment
           in run_segments geod config global_origin min_elevation rest
                (segment_offset + int (length vertices_for_segment)) obj_file2))"

text \<open>
  \<^verbatim>\<open>GPSTrackToOBJ.run\<close>. \<open>Inr obj_file\<close> is the mesh handed to \<^verbatim>\<open>write_to_file\<close>, that
  is, an output file is written with these contents; \<open>Inl e\<close> is an exception raised
  before anything is written.
\<close>

definition run :: "geod_inv \<Rightarrow> GPSTrackConfig \<Rightarrow> GPSTrack \<Rightarrow> error + ObjFile" where
  "run geod config gps_track =
     (case segments gps_track of
        [] \<Rightarrow> Inl IndexError
      | first_segment # _ \<Rightarrow>
          (case points first_segment of
             [] \<Rightarrow> Inl IndexError
           | global_origin # _ \<Rightarrow>
               (case track_min_elevation gps_track of
                  Inl e \<Rightarrow> Inl e
                | Inr min_elevation \<Rightarrow>
                    run_segments geod config global_origin min_elevation (segments gps_track) 0
                      \<lparr>vertices = [], polygons = []\<rparr>)))"

text \<open>
  The configuration of a converter (\<^verbatim>\<open>GPSTrackToOBJ.__init__\<close>): the defaults of the
  dataclass when none is given. The dataclass has no \<^verbatim>\<open>__post_init__\<close>; any four numbers
  make a configuration.
\<close>

definition default_config :: GPSTrackConfig where
  "default_config =
     \<lparr>elevation_multiplier = 1, smoothing_interval = 10, base_height = 1, path_width = 5\<rparr>"

definition init_config :: "GPSTrackConfig option \<Rightarrow> GPSTrackConfig" where
  "init_config config = (case config of None \<Rightarrow> default_config | Some c \<Rightarrow> c)"

text \<open>
  The body of the loop of \<^verbatim>\<open>main\<close> for one track that has been read: skip it when it has
  no points at all, convert it otherwise.
\<close>

datatype outcome = Skipped | Written ObjFile | Raised error

definition main_step :: "geod_inv \<Rightarrow> GPSTrackConfig option \<Rightarrow> GPSTrack \<Rightarrow> outcome" where
  "main_step geod config gps_track =
     (if track_len gps_track = 0 then Skipped
      else (case run geod (init_config config) gps_track of
              Inl e \<Rightarrow> Raised e
            | Inr obj_file \<Rightarrow> Written obj_file))"

section \<open>Notions used by the properties\<close>

text \<open>
  The edges of a face are the pairs of cyclically consecutive indices; an edge is shared
  by the faces that have it in either direction.
\<close>

definition face_edges :: "int list \<Rightarrow> (int \<times> int) list" where
  "face_edges face = zip face (rotate1 face)"

definition has_edge :: "int list \<Rightarrow> int \<Rightarrow> int \<Rightarrow> bool" where
  "has_edge face a b \<longleftrightarrow> (a, b) \<in> set (face_edges face) \<or> (b, a) \<in> set (face_edges face)"

definition edge_count :: "int list list \<Rightarrow> int \<Rightarrow> int \<Rightarrow> nat" where
  "edge_count faces a b = length (filter (\<lambda>face. has_edge face a b) faces)"

text \<open>
  The points of a track that receive a cross-section in a run: in every segment, the
  points kept by the smoothing filter except the last one.
\<close>

definition smoothed_points :: "geod_inv \<Rightarrow> real \<Rightarrow> GPSTrackSegment \<Rightarrow> GPSPoint list" where
  "smoothed_points geod smoothing segment =
     (case filter_by_smoothing_interval geod segment smoothing of
        Inl e \<Rightarrow> []
      | Inr filtered_segment \<Rightarrow> points filtered_segment)"

definition cross_section_points :: "geod_inv \<Rightarrow> GPSTrackConfig \<Rightarrow> GPSTrack \<Rightarrow> GPSPoint list" where
  "cross_section_points geod config gps_track =
     concat (map (\<lambda>segment. butlast (smoothed_points geod (smoothing_interval config) segment))
                 (segments gps_track))"

text \<open>
  The elevation computed for a point that receives a cross-section, and the smallest one
  of a run (\<open>None\<close> when the run computes none). Both are the values of the formula in
  exact arithmetic; the floats of the program are these values rounded after every
  operation.
\<close>

definition computed_elevation :: "GPSTrackConfig \<Rightarrow> real \<Rightarrow> GPSPoint \<Rightarrow> real" where
  "computed_elevation config track_min p =
     base_height config + (elevation p - track_min) * elevation_multiplier config"

definition min_computed_elevation :: "geod_inv \<Rightarrow> GPSTrackConfig \<Rightarrow> GPSTrack \<Rightarrow> real option" where
  "min_computed_elevation geod config gps_track =
     (case track_min_elevation gps_track of
        Inl e \<Rightarrow> None
      | Inr track_min \<Rightarrow>
          (case map (computed_elevation config track_min)
                  (cross_section_points geod config gps_track) of
             [] \<Rightarrow> None
           | e # es \<Rightarrow> Some (fold min es e)))"

text \<open>
  The planar projection as the specification words it: with the adapter's bearing and
  distance from the origin to the point, \<open>x = sin theta * d\<close> and \<open>y = cos theta * d\<close> for
  \<open>theta = radians (- 90 - rawBearing)\<close>.
\<close>

definition planar_projection_spec :: "geod_inv \<Rightarrow> GPSPoint \<Rightarrow> GPSPoint \<Rightarrow> real \<times> real" where
  "planar_projection_spec geod origin p =
     (case geod (longitude origin) (latitude origin) (longitude p) (latitude p) of
        (rawBearing, _, d) \<Rightarrow>
          (let theta = radians (- 90 - rawBearing) in (sin theta * d, cos theta * d)))"

text \<open>
  A simple adapter for concrete examples: every bearing is due west (\<open>- 90\<close> degrees, so
  the rotated angle is \<open>0\<close>) and the distance is the sum of the coordinate differences. Like
  the geodesic distance it is never negative and it is \<open>0\<close> between equal coordinates.
\<close>

definition grid_inv :: geod_inv where
  "grid_inv lon1 lat1 lon2 lat2 = (- 90, 90, \<bar>lon2 - lon1\<bar> + \<bar>lat2 - lat1\<bar>)"

definition pt :: "real \<Rightarrow> real \<Rightarrow> real \<Rightarrow> GPSPoint" where
  "pt la lo el = \<lparr>latitude = la, longitude = lo, elevation = el\<rparr>"

section \<open>Results\<close>

lemma py_range_1_5: "py_range 1 5 1 = [1, 2, 3, 4]"
  by (simp add: py_range.simps)

lemma py_range_nonpos: "stop \<le> start \<Longrightarrow> py_range start stop step = []"
  by (simp add: py_range.simps)

lemma length_py_range4: "length (py_range start stop 4) = nat ((stop - start + 3) div 4)"
proof (induction start stop "4::int" rule: py_range.induct)
  case (1 start stop)
  show ?case
  proof (cases "start < stop")
    case True
    have "length (py_range start stop 4) = Suc (length (py_range (start + 4) stop 4))"
      using True by (subst py_range.simps) simp
    also have "\<dots> = Suc (nat ((stop - (start + 4) + 3) div 4))"
      using 1 True by simp
    also have "\<dots> = nat ((stop - start + 3) div 4)"
      using True by linarith
    finally show ?thesis .
  next
    case False
    then show ?thesis by (simp add: py_range.simps)
  qed
qed

lemma length_get_polygons_for_vertices:
  "length (get_polygons_for_vertices vertex_count segment_offset)
     = 2 + 4 * nat ((vertex_count - 5) div 4)"
  by (simp add: get_polygons_for_vertices_def py_range_1_5 length_concat comp_def
        sum_list_triv length_py_range4)

lemmas run_unfold =
  run_def track_min_elevation_def segment_min_elevation_def filter_by_smoothing_interval_def
  get_vertices_for_segment_def pairwise_def add_vertices_def add_polygons_def
  get_polygons_for_vertices_def py_range_1_5 py_range.simps pt_def angle_and_distance_to_def
  grid_inv_def radians_def move_point_def get_vertices_for_point_def

subsection \<open>Face count\<close>

text \<open>
  Claim C1: a segment with \<open>N \<ge> 2\<close> points after smoothing gets \<open>2 + 4 * (N - 2)\<close> faces;
  three points at smoothing interval \<open>0\<close> give 8 vertices and 6 faces. The run on three
  points of a right-angle path at sea level, with path width 2, base height 1, elevation
  multiplier 1 and smoothing interval 0, produces 8 vertices but only the two caps: the
  side-face loop over \<^verbatim>\<open>range(0, vertex_count - 8, 4)\<close> is empty for 8 vertices, so the two
  cross-sections are never connected.
\<close>

theorem three_point_segment_two_faces:
  "(case run grid_inv
           \<lparr>elevation_multiplier = 1, smoothing_interval = 0, base_height = 1, path_width = 2\<rparr>
           \<lparr>segments = [\<lparr>points = [pt 0 0 0, pt 0 1 0, pt 1 1 0]\<rparr>]\<rparr> of
      Inl e \<Rightarrow> None
    | Inr obj_file \<Rightarrow> Some (length (vertices obj_file), polygons obj_file))
   = Some (8, [[1, 2, 3, 4], [5, 6, 7, 8]])"
  by (simp add: run_unfold)

text \<open>
  In general the indexer emits the two caps and four faces for every element of the
  range, which for \<open>4 * (N - 1)\<close> vertices is \<open>2 + 4 * (N - 3)\<close> faces when \<open>N \<ge> 3\<close>.
\<close>

lemma face_count_of_points:
  "3 \<le> N \<Longrightarrow> length (get_polygons_for_vertices (4 * (int N - 1)) segment_offset)
     = 2 + 4 * (N - 3)"
  by (simp add: length_get_polygons_for_vertices)

subsection \<open>Closed tube\<close>

text \<open>
  Claim C2: the faces of a segment form a closed tube, every edge of every cross-section
  lying in exactly two faces. For 16 vertices (a segment of five points) the edge between
  the vertices 7 and 8 of the second cross-section lies in no face, because the third side
  face of a pair is \<open>[i, i + 3, i + 7, i + 4]\<close> (\<open>(j + 1) mod 4\<close> is \<open>0\<close> for \<open>j = 3\<close>), and
  the edge between the vertices 9 and 10 of the third cross-section lies in one face only,
  because the last pair of cross-sections gets no side faces.
\<close>

theorem five_point_segment_open_edges:
  "edge_count (get_polygons_for_vertices 16 0) 7 8 = 0
   \<and> edge_count (get_polygons_for_vertices 16 0) 9 10 = 1"
  by (simp add: get_polygons_for_vertices_def py_range_1_5 py_range.simps edge_count_def
        has_edge_def face_edges_def)

subsection \<open>Segments of one point\<close>

text \<open>
  Claim C3: a track with a segment of fewer than two points after smoothing makes the
  build fail and no file is written. A track of one segment with one point passes the
  guard of the caller, and the run raises nothing: it hands a mesh with no vertex and the
  two faces \<open>[1, 2, 3, 4]\<close> and \<open>[- 3, - 2, - 1, 0]\<close> to the writer.
\<close>

theorem one_point_segment_written:
  "main_step grid_inv None \<lparr>segments = [\<lparr>points = [pt 0 0 5]\<rparr>]\<rparr>
   = Written \<lparr>vertices = [], polygons = [[1, 2, 3, 4], [- 3, - 2, - 1, 0]]\<rparr>"
  by (simp add: main_step_def track_len_def segment_len_def init_config_def run_unfold)

subsection \<open>Face indices\<close>

text \<open>
  Claim C8: every face of a segment has its four indices in the segment's own vertex range
  \<open>segment_offset + 1 .. segment_offset + vertex_count\<close>. A segment of four points, pairwise
  farther apart than the smoothing interval, gets 12 vertices, and its third side face is
  \<open>[0, 3, 7, 4]\<close>: index 0 is below the range, and no vertex of a 1-based mesh.
\<close>

theorem four_point_segment_index_zero:
  "(case run grid_inv
           \<lparr>elevation_multiplier = 1, smoothing_interval = 0, base_height = 1, path_width = 2\<rparr>
           \<lparr>segments = [\<lparr>points = [pt 0 0 0, pt 0 1 0, pt 0 2 0, pt 0 3 0]\<rparr>]\<rparr> of
      Inl e \<Rightarrow> None
    | Inr obj_file \<Rightarrow> Some (length (vertices obj_file), polygons obj_file))
   = Some (12, [[1, 2, 3, 4], [2, 1, 5, 6], [3, 2, 6, 7], [0, 3, 7, 4], [1, 4, 8, 5],
                [9, 10, 11, 12]])"
  by (simp add: run_unfold)

text \<open>
  With an offset the same face reaches into the vertices of the segment before: for 12
  vertices at offset 8 it contains index 8.
\<close>

lemma offset_face_collides:
  "get_polygons_for_vertices 12 8 ! 3 = [8, 11, 15, 12]"
  by (simp add: get_polygons_for_vertices_def py_range_1_5 py_range.simps)

subsection \<open>Configuration values\<close>


subsection \<open>The smoothing filter\<close>

lemma successively_nth:
  "successively P xs \<longleftrightarrow> (\<forall>i. Suc i < length xs \<longrightarrow> P (xs ! i) (xs ! Suc i))"
proof (induction P xs rule: successively.induct)
  case (3 P x y xs)
  show ?case
  proof
    assume a: "successively P (x # y # xs)"
    show "\<forall>i. Suc i < length (x # y # xs) \<longrightarrow> P ((x # y # xs) ! i) ((x # y # xs) ! Suc i)"
    proof (intro allI impI)
      fix i assume "Suc i < length (x # y # xs)"
      then show "P ((x # y # xs) ! i) ((x # y # xs) ! Suc i)"
        using a 3 by (cases i) auto
    qed
  next
    assume a: "\<forall>i. Suc i < length (x # y # xs) \<longrightarrow> P ((x # y # xs) ! i) ((x # y # xs) ! Suc i)"
    have "P x y" using a by (auto dest: spec [of _ 0])
    moreover have "\<forall>i. Suc i < length (y # xs) \<longrightarrow> P ((y # xs) ! i) ((y # xs) ! Suc i)"
      using a by (auto dest: spec [of _ "Suc i" for i])
    ultimately show "successively P (x # y # xs)" using 3 by simp
  qed
qed simp_all

lemma filter_loop_append:
  "\<exists>ys. filter_loop geod d kept rest = kept @ ys \<and> subseq ys rest"
proof (induction rest arbitrary: kept)
  case Nil
  then show ?case by simp
next
  case (Cons p rest)
  show ?case
  proof (cases "snd (angle_and_distance_to geod (last kept) p) > d")
    case True
    from Cons [of "kept @ [p]"] obtain ys
      where "filter_loop geod d (kept @ [p]) rest = (kept @ [p]) @ ys" "subseq ys rest" by blast
    then have "filter_loop geod d kept (p # rest) = kept @ (p # ys) \<and> subseq (p # ys) (p # rest)"
      using True by simp
    then show ?thesis by blast
  next
    case False
    from Cons [of kept] obtain ys
      where "filter_loop geod d kept rest = kept @ ys" "subseq ys rest" by blast
    then have "filter_loop geod d kept (p # rest) = kept @ ys \<and> subseq ys (p # rest)"
      using False by (simp add: list_emb_Cons)
    then show ?thesis by blast
  qed
qed

lemma filter_loop_spaced:
  "kept \<noteq> [] \<Longrightarrow> successively (\<lambda>a b. d < snd (angle_and_distance_to geod a b)) kept
   \<Longrightarrow> successively (\<lambda>a b. d < snd (angle_and_distance_to geod a b)) (filter_loop geod d kept rest)"
proof (induction rest arbitrary: kept)
  case Nil
  then show ?case by simp
next
  case (Cons p rest)
  show ?case
  proof (cases "snd (angle_and_distance_to geod (last kept) p) > d")
    case True
    have "successively (\<lambda>a b. d < snd (angle_and_distance_to geod a b)) (kept @ [p])"
      using Cons.prems True by (simp add: successively_append_iff)
    then show ?thesis using True Cons.IH [of "kept @ [p]"] by simp
  next
    case False
    then show ?thesis using Cons by simp
  qed
qed

lemma filter_loop_keeps_all:
  "kept \<noteq> [] \<Longrightarrow> successively (\<lambda>a b. d < snd (angle_and_distance_to geod a b)) (kept @ rest)
   \<Longrightarrow> filter_loop geod d kept rest = kept @ rest"
proof (induction rest arbitrary: kept)
  case Nil
  then show ?case by simp
next
  case (Cons p rest)
  have "d < snd (angle_and_distance_to geod (last kept) p)"
    using Cons.prems by (simp add: successively_append_iff)
  moreover have "filter_loop geod d (kept @ [p]) rest = (kept @ [p]) @ rest"
    using Cons.prems by (intro Cons.IH) simp_all
  ultimately show ?case by simp
qed

lemma segment_eq_iff: "\<lparr>points = xs\<rparr> = (S::GPSTrackSegment) \<longleftrightarrow> xs = points S"
  by (cases S) auto

lemma filter_all_iff:
  assumes "points S \<noteq> []"
  shows "filter_by_smoothing_interval geod S d = Inr S
     \<longleftrightarrow> successively (\<lambda>a b. d < snd (angle_and_distance_to geod a b)) (points S)"
proof -
  obtain p0 rest where S: "points S = p0 # rest" using assms by (cases "points S") auto
  have "filter_by_smoothing_interval geod S d = Inr \<lparr>points = filter_loop geod d [p0] rest\<rparr>"
    by (simp add: filter_by_smoothing_interval_def S)
  then have eq: "filter_by_smoothing_interval geod S d = Inr S \<longleftrightarrow> filter_loop geod d [p0] rest = points S"
    by (simp add: segment_eq_iff)
  show ?thesis
  proof
    assume "filter_by_smoothing_interval geod S d = Inr S"
    then have "filter_loop geod d [p0] rest = points S" using eq by simp
    moreover have "successively (\<lambda>a b. d < snd (angle_and_distance_to geod a b)) (filter_loop geod d [p0] rest)"
      by (rule filter_loop_spaced) simp_all
    ultimately show "successively (\<lambda>a b. d < snd (angle_and_distance_to geod a b)) (points S)" by simp
  next
    assume "successively (\<lambda>a b. d < snd (angle_and_distance_to geod a b)) (points S)"
    then have "filter_loop geod d [p0] rest = [p0] @ rest"
      by (intro filter_loop_keeps_all) (simp_all add: S)
    then show "filter_by_smoothing_interval geod S d = Inr S" using eq S by simp
  qed
qed


lemma snd_angle_and_distance_to:
  "snd (angle_and_distance_to geod a b)
     = snd (snd (geod (longitude a) (latitude a) (longitude b) (latitude b)))"
  by (simp add: angle_and_distance_to_def split: prod.splits)

lemma fst_angle_and_distance_to:
  "fst (angle_and_distance_to geod a b)
     = radians (- 90 - fst (geod (longitude a) (latitude a) (longitude b) (latitude b)))"
  by (simp add: angle_and_distance_to_def split: prod.splits)

lemma filter_defined:
  "points S = p0 # rest \<Longrightarrow>
   filter_by_smoothing_interval geod S d = Inr \<lparr>points = filter_loop geod d [p0] rest\<rparr>"
  by (simp add: filter_by_smoothing_interval_def)

text \<open>
  Claim C7: for every non-empty segment and every threshold (the thresholds \<open>d \<ge> 0\<close> of
  the claim included), the smoothing filter returns a segment whose points are an
  order-preserving subsequence of the input, starting with the first input point, and any
  two adjacent kept points are farther apart than the threshold.
\<close>

theorem smoothing_subsequence_spaced:
  assumes "points S \<noteq> []"
  shows "\<exists>out. filter_by_smoothing_interval geod S d = Inr out
           \<and> subseq (points out) (points S)
           \<and> points out \<noteq> [] \<and> points out ! 0 = points S ! 0
           \<and> (\<forall>i. Suc i < length (points out) \<longrightarrow>
                 d < snd (angle_and_distance_to geod (points out ! i) (points out ! Suc i)))"
proof -
  obtain p0 rest where S: "points S = p0 # rest" using assms by (cases "points S") auto
  let ?out = "filter_loop geod d [p0] rest"
  obtain ys where ys: "?out = [p0] @ ys" "subseq ys rest"
    using filter_loop_append [of geod d "[p0]" rest] by blast
  have "successively (\<lambda>a b. d < snd (angle_and_distance_to geod a b)) ?out"
    by (rule filter_loop_spaced) simp_all
  then have spaced: "\<forall>i. Suc i < length ?out \<longrightarrow>
      d < snd (angle_and_distance_to geod (?out ! i) (?out ! Suc i))"
    by (simp only: successively_nth)
  have "subseq ?out (points S)" using ys S by simp
  moreover have "?out \<noteq> []" "?out ! 0 = points S ! 0" using ys S by simp_all
  ultimately show ?thesis using spaced filter_defined [OF S, of geod d] by simp
qed

text \<open>An instance: of four points, the two within 2 metres of the first are dropped.\<close>

theorem smoothing_subsequence_spaced_witness:
  "points \<lparr>points = [pt 0 0 0, pt 0 1 0, pt 0 1 0, pt 0 5 0]\<rparr> \<noteq> []
   \<and> filter_by_smoothing_interval grid_inv
        \<lparr>points = [pt 0 0 0, pt 0 1 0, pt 0 1 0, pt 0 5 0]\<rparr> 2
      = Inr \<lparr>points = [pt 0 0 0, pt 0 5 0]\<rparr>
   \<and> subseq [pt 0 0 0, pt 0 5 0] [pt 0 0 0, pt 0 1 0, pt 0 1 0, pt 0 5 0]
   \<and> 2 < snd (angle_and_distance_to grid_inv (pt 0 0 0) (pt 0 5 0))"
  using smoothing_subsequence_spaced
          [of "\<lparr>points = [pt 0 0 0, pt 0 1 0, pt 0 1 0, pt 0 5 0]\<rparr>" grid_inv 2]
  by (simp add: filter_by_smoothing_interval_def angle_and_distance_to_def grid_inv_def pt_def)

text \<open>
  Claim C5 as stated: for a threshold \<open>\<le> 0\<close> the filter keeps every input point. At
  threshold \<open>0\<close> it does not keep a point at distance \<open>0\<close> from the last kept one, since the
  comparison \<^verbatim>\<open>distance > smoothing_interval\<close> is strict.
\<close>

theorem zero_threshold_drops_repeated_point:
  "filter_by_smoothing_interval grid_inv \<lparr>points = [pt 0 0 5, pt 0 0 5]\<rparr> 0
   = Inr \<lparr>points = [pt 0 0 5]\<rparr>"
  by (simp add: filter_by_smoothing_interval_def angle_and_distance_to_def grid_inv_def pt_def)

text \<open>
  Claim C5, amended: for a non-empty segment and a threshold \<open>\<le> 0\<close>, with an adapter whose
  distances are never negative, the filter returns a segment (it is a total function, with
  no division), and it keeps every input point exactly when the threshold is negative or
  no input point is at distance \<open>0\<close> from its predecessor.
\<close>

theorem nonpositive_threshold_keeps_all_iff:
  assumes "points S \<noteq> []" and "d \<le> 0"
    and "\<forall>lon1 lat1 lon2 lat2. 0 \<le> snd (snd (geod lon1 lat1 lon2 lat2))"
  shows "(\<exists>out. filter_by_smoothing_interval geod S d = Inr out)
     \<and> (filter_by_smoothing_interval geod S d = Inr S
          \<longleftrightarrow> d < 0 \<or> (\<forall>i. Suc i < length (points S) \<longrightarrow>
                snd (angle_and_distance_to geod (points S ! i) (points S ! Suc i)) \<noteq> 0))"
proof -
  obtain p0 rest where S: "points S = p0 # rest" using assms(1) by (cases "points S") auto
  have nonneg: "0 \<le> snd (angle_and_distance_to geod a b)" for a b
    using assms(3) [rule_format, of "longitude a" "latitude a" "longitude b" "latitude b"]
    by (simp add: snd_angle_and_distance_to)
  have "d < snd (angle_and_distance_to geod a b)
        \<longleftrightarrow> d < 0 \<or> snd (angle_and_distance_to geod a b) \<noteq> 0" for a b
    using nonneg [of a b] assms(2) by auto
  then have "filter_by_smoothing_interval geod S d = Inr S
     \<longleftrightarrow> (\<forall>i. Suc i < length (points S) \<longrightarrow>
           d < 0 \<or> snd (angle_and_distance_to geod (points S ! i) (points S ! Suc i)) \<noteq> 0)"
    by (simp add: filter_all_iff [OF assms(1)] successively_nth)
  then show ?thesis using filter_defined [OF S, of geod d] by auto
qed

text \<open>An instance at threshold \<open>0\<close> with distinct consecutive points.\<close>

theorem nonpositive_threshold_keeps_all_iff_witness:
  "points \<lparr>points = [pt 0 0 5, pt 0 1 5, pt 0 0 5]\<rparr> \<noteq> [] \<and> (0::real) \<le> 0
   \<and> (\<forall>lon1 lat1 lon2 lat2. 0 \<le> snd (snd (grid_inv lon1 lat1 lon2 lat2)))
   \<and> filter_by_smoothing_interval grid_inv \<lparr>points = [pt 0 0 5, pt 0 1 5, pt 0 0 5]\<rparr> 0
      = Inr \<lparr>points = [pt 0 0 5, pt 0 1 5, pt 0 0 5]\<rparr>"
  using nonpositive_threshold_keeps_all_iff
          [of "\<lparr>points = [pt 0 0 5, pt 0 1 5, pt 0 0 5]\<rparr>" 0 grid_inv]
  by (simp add: filter_by_smoothing_interval_def angle_and_distance_to_def grid_inv_def pt_def)

subsection \<open>When a run raises\<close>

lemma segment_min_elevation_empty:
  "points s = [] \<Longrightarrow> segment_min_elevation s = Inl ValueError"
  by (simp add: segment_min_elevation_def)

lemma segment_min_elevation_nonempty:
  "points s \<noteq> [] \<Longrightarrow> segment_min_elevation s = Inr (Min (elevation ` set (points s)))"
proof -
  assume "points s \<noteq> []"
  then obtain p ps where s: "points s = p # ps" by (cases "points s") auto
  have "fold min (map elevation ps) (elevation p) = Min (set (elevation p # map elevation ps))"
    by (rule Min.set_eq_fold [symmetric])
  then show ?thesis by (simp add: segment_min_elevation_def s)
qed

lemma sequence_results_all_ok:
  "\<forall>s\<in>set segs. points s \<noteq> [] \<Longrightarrow>
   sequence_results (map segment_min_elevation segs)
     = Inr (map (\<lambda>s. Min (elevation ` set (points s))) segs)"
  by (induction segs) (simp_all add: segment_min_elevation_nonempty)

lemma sequence_results_some_empty:
  "\<exists>s\<in>set segs. points s = [] \<Longrightarrow>
   sequence_results (map segment_min_elevation segs) = Inl ValueError"
proof (induction segs)
  case Nil
  then show ?case by simp
next
  case (Cons s segs)
  show ?case
  proof (cases "points s = []")
    case True
    then show ?thesis by (simp add: segment_min_elevation_empty)
  next
    case False
    then have "\<exists>s\<in>set segs. points s = []" using Cons.prems by auto
    then show ?thesis using Cons.IH False by (simp add: segment_min_elevation_nonempty)
  qed
qed

lemma track_min_elevation_fails:
  "segments tr = [] \<or> (\<exists>s\<in>set (segments tr). points s = []) \<Longrightarrow>
   track_min_elevation tr = Inl ValueError"
proof (cases "\<exists>s\<in>set (segments tr). points s = []")
  case True
  then show ?thesis by (simp add: track_min_elevation_def sequence_results_some_empty)
next
  case False
  assume "segments tr = [] \<or> (\<exists>s\<in>set (segments tr). points s = [])"
  then have "segments tr = []" using False by simp
  then show ?thesis by (simp add: track_min_elevation_def)
qed

lemma track_min_elevation_ok:
  assumes "segments tr \<noteq> []" and "\<forall>s\<in>set (segments tr). points s \<noteq> []"
  shows "\<exists>m. track_min_elevation tr = Inr m
           \<and> (\<forall>s\<in>set (segments tr). \<forall>p\<in>set (points s). m \<le> elevation p)
           \<and> (\<exists>s\<in>set (segments tr). \<exists>p\<in>set (points s). elevation p = m)"
proof -
  let ?f = "\<lambda>s. Min (elevation ` set (points s))"
  obtain s0 rest where segs: "segments tr = s0 # rest"
    using assms(1) by (cases "segments tr") auto
  let ?M = "set (map ?f (segments tr))"
  let ?m = "Min ?M"
  have "fold min (map ?f rest) (?f s0) = Min (set (?f s0 # map ?f rest))"
    by (rule Min.set_eq_fold [symmetric])
  then have tm: "track_min_elevation tr = Inr ?m"
    using sequence_results_all_ok [OF assms(2)] by (simp add: track_min_elevation_def segs)
  have fin: "finite ?M" "?M \<noteq> {}" using segs by simp_all
  have lower: "?m \<le> elevation p" if "s \<in> set (segments tr)" "p \<in> set (points s)" for s p
  proof -
    have "?m \<le> ?f s" using that(1) by (intro Min_le) simp_all
    also have "?f s \<le> elevation p" using that(2) by (intro Min_le) simp_all
    finally show ?thesis .
  qed
  have "?m \<in> ?M" using fin by (rule Min_in)
  then obtain s where s: "s \<in> set (segments tr)" "?m = ?f s" by auto
  have "?f s \<in> elevation ` set (points s)"
    using assms(2) s(1) by (intro Min_in) simp_all
  then obtain p where "p \<in> set (points s)" "elevation p = ?m" using s(2) by auto
  then show ?thesis using tm lower s(1) by blast
qed

lemma smoothed_points_nonempty:
  "points s = p0 # rest \<Longrightarrow>
   filter_by_smoothing_interval geod s d = Inr \<lparr>points = smoothed_points geod d s\<rparr>"
  by (simp add: smoothed_points_def filter_by_smoothing_interval_def)

lemma run_segments_ok:
  "\<forall>s\<in>set segs. points s \<noteq> [] \<Longrightarrow>
   \<exists>obj'. run_segments geod config origin m segs off obj = Inr obj'
      \<and> vertices obj' = vertices obj
          @ concat (map (\<lambda>s. get_vertices_for_segment geod config
                                \<lparr>points = smoothed_points geod (smoothing_interval config) s\<rparr>
                                origin m) segs)"
proof (induction segs arbitrary: off obj)
  case Nil
  then show ?case by simp
next
  case (Cons s segs)
  then obtain p0 rest where s: "points s = p0 # rest" by (cases "points s") auto
  let ?vs = "get_vertices_for_segment geod config
               \<lparr>points = smoothed_points geod (smoothing_interval config) s\<rparr> origin m"
  let ?obj2 = "add_polygons (add_vertices obj ?vs)
                 (get_polygons_for_vertices (int (length ?vs)) off)"
  have step: "run_segments geod config origin m (s # segs) off obj
        = run_segments geod config origin m segs (off + int (length ?vs)) ?obj2"
    by (simp add: smoothed_points_nonempty [OF s] Let_def)
  have "\<forall>s\<in>set segs. points s \<noteq> []" using Cons.prems by simp
  from Cons.IH [OF this, of "off + int (length ?vs)" ?obj2]
  show ?case unfolding step by (simp add: add_polygons_def add_vertices_def)
qed

lemma run_ok:
  assumes "segments tr = first # others" and "points first = origin # ps"
    and "\<forall>s\<in>set (segments tr). points s \<noteq> []"
  shows "\<exists>m obj. track_min_elevation tr = Inr m \<and> run geod config tr = Inr obj
     \<and> vertices obj = concat (map (\<lambda>s. get_vertices_for_segment geod config
                                \<lparr>points = smoothed_points geod (smoothing_interval config) s\<rparr>
                                origin m) (segments tr))"
proof -
  have "segments tr \<noteq> []" using assms(1) by simp
  from track_min_elevation_ok [OF this assms(3)]
  obtain m where m: "track_min_elevation tr = Inr m" by blast
  from run_segments_ok [OF assms(3), of geod config origin m 0 "\<lparr>vertices = [], polygons = []\<rparr>"]
  obtain obj where "run_segments geod config origin m (segments tr) 0
        \<lparr>vertices = [], polygons = []\<rparr> = Inr obj"
    "vertices obj = concat (map (\<lambda>s. get_vertices_for_segment geod config
                                \<lparr>points = smoothed_points geod (smoothing_interval config) s\<rparr>
                                origin m) (segments tr))" by auto
  moreover have "run geod config tr = run_segments geod config origin m (segments tr) 0
        \<lparr>vertices = [], polygons = []\<rparr>"
    using assms(1,2) m by (simp add: run_def)
  ultimately show ?thesis using m by simp
qed

lemma run_Inr_shape:
  assumes "run geod config tr = Inr obj"
  shows "\<exists>first others origin ps. segments tr = first # others \<and> points first = origin # ps
           \<and> (\<forall>s\<in>set (segments tr). points s \<noteq> [])"
proof -
  obtain first others where segs: "segments tr = first # others"
    using assms by (cases "segments tr") (auto simp: run_def)
  obtain origin ps where first: "points first = origin # ps"
    using assms segs by (cases "points first") (auto simp: run_def)
  have "\<not> (\<exists>s\<in>set (segments tr). points s = [])"
  proof
    assume "\<exists>s\<in>set (segments tr). points s = []"
    then have "track_min_elevation tr = Inl ValueError"
      by (intro track_min_elevation_fails) simp
    then show False using assms segs first by (simp add: run_def)
  qed
  then show ?thesis using segs first by blast
qed

lemma run_ok_iff:
  "\<not> isl (run geod config tr)
     \<longleftrightarrow> segments tr \<noteq> [] \<and> (\<forall>s\<in>set (segments tr). points s \<noteq> [])"
proof
  assume "\<not> isl (run geod config tr)"
  then obtain obj where "run geod config tr = Inr obj" by (cases "run geod config tr") auto
  from run_Inr_shape [OF this] show "segments tr \<noteq> [] \<and> (\<forall>s\<in>set (segments tr). points s \<noteq> [])"
    by auto
next
  assume a: "segments tr \<noteq> [] \<and> (\<forall>s\<in>set (segments tr). points s \<noteq> [])"
  then obtain first others where segs: "segments tr = first # others"
    by (cases "segments tr") auto
  then obtain origin ps where first: "points first = origin # ps"
    using a by (cases "points first") auto
  from run_ok [OF segs first, of geod config] a show "\<not> isl (run geod config tr)" by auto
qed

lemmas example_unfold =
  main_step_def track_len_def segment_len_def init_config_def default_config_def
  cross_section_points_def smoothed_points_def min_computed_elevation_def
  computed_elevation_def planar_projection_spec_def



text \<open>
  Claim C10: the smoothing filter is defined only for non-empty segments, where it raises
  IndexError on an empty one; a run returns only if every segment of the track has a point
  (and, for a track that passes the guard of the caller, it returns if every segment has
  one); the caller skips exactly the tracks whose total point count is zero, so a track
  with points and an empty segment passes the guard and the run raises.
\<close>

theorem filter_and_run_need_nonempty_segments:
  "(filter_by_smoothing_interval geod seg d = Inl IndexError \<longleftrightarrow> points seg = [])
   \<and> (isl (filter_by_smoothing_interval geod seg d) \<longleftrightarrow> points seg = [])
   \<and> (\<not> isl (run geod config tr) \<longrightarrow> (\<forall>s\<in>set (segments tr). points s \<noteq> []))
   \<and> (track_len tr \<noteq> 0 \<and> (\<forall>s\<in>set (segments tr). points s \<noteq> [])
        \<longrightarrow> \<not> isl (run geod config tr))
   \<and> (main_step geod c tr = Skipped \<longleftrightarrow> track_len tr = 0)
   \<and> (track_len tr \<noteq> 0 \<and> (\<exists>s\<in>set (segments tr). points s = [])
        \<longrightarrow> (\<exists>e. main_step geod c tr = Raised e))"
proof -
  have f: "(filter_by_smoothing_interval geod seg d = Inl IndexError \<longleftrightarrow> points seg = [])"
    "(isl (filter_by_smoothing_interval geod seg d) \<longleftrightarrow> points seg = [])"
    by (auto simp: filter_by_smoothing_interval_def split: list.splits)
  have r1: "\<not> isl (run geod config tr) \<longrightarrow> (\<forall>s\<in>set (segments tr). points s \<noteq> [])"
    by (simp add: run_ok_iff)
  have len: "segments tr \<noteq> []" if "track_len tr \<noteq> 0"
    using that by (auto simp: track_len_def)
  have r2: "track_len tr \<noteq> 0 \<and> (\<forall>s\<in>set (segments tr). points s \<noteq> [])
        \<longrightarrow> \<not> isl (run geod config tr)"
    using len by (simp add: run_ok_iff)
  have skip: "main_step geod c tr = Skipped \<longleftrightarrow> track_len tr = 0"
    by (simp add: main_step_def split: sum.splits)
  have raised: "track_len tr \<noteq> 0 \<and> (\<exists>s\<in>set (segments tr). points s = [])
        \<longrightarrow> (\<exists>e. main_step geod c tr = Raised e)"
  proof
    assume a: "track_len tr \<noteq> 0 \<and> (\<exists>s\<in>set (segments tr). points s = [])"
    then have "isl (run geod (init_config c) tr)" using run_ok_iff [of geod "init_config c" tr] by blast
    then show "\<exists>e. main_step geod c tr = Raised e"
      using a by (cases "run geod (init_config c) tr") (simp_all add: main_step_def)
  qed
  show ?thesis using f r1 r2 skip raised by blast
qed

text \<open>
  Instances: the filter on the empty segment, a track with two points and an empty
  segment that passes the guard and raises, and a run that returns.
\<close>

theorem filter_and_run_need_nonempty_segments_witness:
  "filter_by_smoothing_interval grid_inv \<lparr>points = []\<rparr> 10 = Inl IndexError
   \<and> track_len \<lparr>segments = [\<lparr>points = [pt 0 0 5, pt 0 1 6]\<rparr>, \<lparr>points = []\<rparr>]\<rparr> \<noteq> 0
   \<and> main_step grid_inv None \<lparr>segments = [\<lparr>points = [pt 0 0 5, pt 0 1 6]\<rparr>, \<lparr>points = []\<rparr>]\<rparr>
       = Raised ValueError
   \<and> \<not> isl (run grid_inv default_config \<lparr>segments = [\<lparr>points = [pt 0 0 5, pt 0 1 6]\<rparr>]\<rparr>)"
  using filter_and_run_need_nonempty_segments
          [of grid_inv "\<lparr>points = []\<rparr>" 10 default_config
              "\<lparr>segments = [\<lparr>points = [pt 0 0 5, pt 0 1 6]\<rparr>]\<rparr>" None]
        filter_and_run_need_nonempty_segments
          [of grid_inv "\<lparr>points = []\<rparr>" 10 default_config
              "\<lparr>segments = [\<lparr>points = [pt 0 0 5, pt 0 1 6]\<rparr>, \<lparr>points = []\<rparr>]\<rparr>" None]
  by (simp add: run_unfold example_unfold)

subsection \<open>Planar projection\<close>

lemma map_fst_pairwise: "map fst (pairwise xs) = butlast xs"
  by (cases xs) (simp_all add: pairwise_def map_fst_zip_take butlast_conv_take)

lemma get_vertices_for_segment_spec:
  "get_vertices_for_segment geod config seg origin m
     = concat (map (\<lambda>(p, q). get_vertices_for_point config (planar_projection_spec geod origin p)
                       (fst (angle_and_distance_to geod p q)) (computed_elevation config m p))
                   (pairwise (points seg)))"
  unfolding get_vertices_for_segment_def
  by (intro arg_cong [where f = concat] map_cong refl)
     (auto simp: planar_projection_spec_def computed_elevation_def move_point_def
        angle_and_distance_to_def Let_def split: prod.splits)

lemma concat_map_concat:
  "concat (map (\<lambda>s. concat (map f (g s))) segs) = concat (map f (concat (map g segs)))"
  by (induction segs) simp_all

text \<open>
  Claim C9: every point that the run places (the first point of every consecutive pair of
  kept points, in every segment) gets its cross-section at the local coordinates
  \<open>(sin theta * d, cos theta * d)\<close>, where the bearing and the distance \<open>d\<close> are the adapter's
  from the global origin, the first point of the first segment of the track, to the point,
  and \<open>theta = radians (- 90 - rawBearing)\<close>.
\<close>

theorem vertices_at_planar_projection:
  assumes "run geod config tr = Inr obj"
  shows "\<exists>first others origin ps m.
           segments tr = first # others \<and> points first = origin # ps
           \<and> track_min_elevation tr = Inr m
           \<and> vertices obj
               = concat (map (\<lambda>(p, q). get_vertices_for_point config
                                 (planar_projection_spec geod origin p)
                                 (fst (angle_and_distance_to geod p q))
                                 (computed_elevation config m p))
                   (concat (map (\<lambda>s. pairwise (smoothed_points geod (smoothing_interval config) s))
                                (segments tr))))"
proof -
  from run_Inr_shape [OF assms] obtain first others origin ps
    where shape: "segments tr = first # others" "points first = origin # ps"
      "\<forall>s\<in>set (segments tr). points s \<noteq> []" by blast
  from run_ok [OF shape, of geod config] assms obtain m
    where m: "track_min_elevation tr = Inr m"
      and v: "vertices obj = concat (map (\<lambda>s. get_vertices_for_segment geod config
                                \<lparr>points = smoothed_points geod (smoothing_interval config) s\<rparr>
                                origin m) (segments tr))" by auto
  have "vertices obj
               = concat (map (\<lambda>(p, q). get_vertices_for_point config
                                 (planar_projection_spec geod origin p)
                                 (fst (angle_and_distance_to geod p q))
                                 (computed_elevation config m p))
                   (concat (map (\<lambda>s. pairwise (smoothed_points geod (smoothing_interval config) s))
                                (segments tr))))"
    unfolding v get_vertices_for_segment_spec by (simp add: concat_map_concat)
  then show ?thesis using shape(1,2) m by blast
qed

text \<open>An instance: with the grid adapter the second point, 3 away, is placed at \<open>(0, 3)\<close>.\<close>

theorem vertices_at_planar_projection_witness:
  "run grid_inv
     \<lparr>elevation_multiplier = 1, smoothing_interval = 0, base_height = 1, path_width = 2\<rparr>
     \<lparr>segments = [\<lparr>points = [pt 0 0 5, pt 0 3 6, pt 0 4 7]\<rparr>]\<rparr>
   = Inr \<lparr>vertices = [(1, 0, 0), (1, 0, 1), (- 1, 0, 1), (- 1, 0, 0),
                       (1, 3, 0), (1, 3, 2), (- 1, 3, 2), (- 1, 3, 0)],
            polygons = [[1, 2, 3, 4], [5, 6, 7, 8]]\<rparr>
   \<and> planar_projection_spec grid_inv (pt 0 0 5) (pt 0 3 6) = (0, 3)"
  using vertices_at_planar_projection
          [of grid_inv
              "\<lparr>elevation_multiplier = 1, smoothing_interval = 0, base_height = 1, path_width = 2\<rparr>"
              "\<lparr>segments = [\<lparr>points = [pt 0 0 5, pt 0 3 6, pt 0 4 7]\<rparr>]\<rparr>"]
  by (simp add: run_unfold example_unfold)

subsection \<open>Elevation\<close>

lemma z_of_point:
  "map (\<lambda>v. snd (snd v)) (get_vertices_for_point config location angle elev)
     = [0, elev, elev, 0]"
  by (cases location) (simp add: get_vertices_for_point_def Let_def)

lemma z_of_segment:
  "map (\<lambda>v. snd (snd v)) (get_vertices_for_segment geod config seg origin m)
     = concat (map (\<lambda>p. [0, computed_elevation config m p, computed_elevation config m p, 0])
                   (butlast (points seg)))"
proof -
  have "map (\<lambda>v. snd (snd v)) (get_vertices_for_segment geod config seg origin m)
     = concat (map ((\<lambda>p. [0, computed_elevation config m p, computed_elevation config m p, 0]) \<circ> fst)
                   (pairwise (points seg)))"
    unfolding get_vertices_for_segment_spec map_concat map_map
    by (intro arg_cong [where f = concat] map_cong refl) (auto simp: z_of_point)
  also have "\<dots> = concat (map (\<lambda>p. [0, computed_elevation config m p, computed_elevation config m p, 0])
                   (map fst (pairwise (points seg))))"
    by (simp only: map_map)
  finally show ?thesis by (simp only: map_fst_pairwise)
qed

lemma z_of_track:
  "map (\<lambda>v. snd (snd v))
      (concat (map (\<lambda>s. get_vertices_for_segment geod config
                            \<lparr>points = smoothed_points geod (smoothing_interval config) s\<rparr>
                            origin m) segs))
     = concat (map (\<lambda>p. [0, computed_elevation config m p, computed_elevation config m p, 0])
         (concat (map (\<lambda>s. butlast (smoothed_points geod (smoothing_interval config) s)) segs)))"
  by (induction segs) (simp_all add: z_of_segment)

lemma smoothed_points_subset:
  "set (smoothed_points geod d s) \<subseteq> set (points s)"
proof (cases "points s")
  case Nil
  then show ?thesis by (simp add: smoothed_points_def filter_by_smoothing_interval_def)
next
  case (Cons p0 rest)
  obtain ys where ys: "filter_loop geod d [p0] rest = [p0] @ ys" "subseq ys rest"
    using filter_loop_append [of geod d "[p0]" rest] by blast
  have "set ys \<subseteq> set rest" using ys(2) by (auto elim: list_emb_set)
  then show ?thesis using ys(1) Cons
    by (auto simp: smoothed_points_def filter_by_smoothing_interval_def)
qed

lemma cross_section_point_in_track:
  assumes "p \<in> set (cross_section_points geod config tr)"
  shows "\<exists>s\<in>set (segments tr). p \<in> set (points s)"
proof -
  from assms obtain s where s: "s \<in> set (segments tr)"
    "p \<in> set (butlast (smoothed_points geod (smoothing_interval config) s))"
    by (auto simp: cross_section_points_def)
  then have "p \<in> set (smoothed_points geod (smoothing_interval config) s)"
    by (auto dest: in_set_butlastD)
  then show ?thesis using s(1) smoothed_points_subset by blast
qed

lemma min_computed_elevation_eq:
  assumes "track_min_elevation tr = Inr m"
  shows "min_computed_elevation geod config tr
     = (if cross_section_points geod config tr = [] then None
        else Some (Min (computed_elevation config m ` set (cross_section_points geod config tr))))"
proof (cases "cross_section_points geod config tr")
  case Nil
  then show ?thesis using assms by (simp add: min_computed_elevation_def)
next
  case (Cons p ps)
  have "fold min (map (computed_elevation config m) ps) (computed_elevation config m p)
      = Min (set (computed_elevation config m p # map (computed_elevation config m) ps))"
    by (rule Min.set_eq_fold [symmetric])
  then show ?thesis using assms Cons by (simp add: min_computed_elevation_def)
qed

text \<open>
  Over the reals of this model, where sums and products are exact, a positive multiplier
  gives the base height only to a point of the smallest elevation. The program adds in
  floating point, where the base height plus a small positive term can round to the base
  height, so this is a fact of the exact formula and not of the floats the program
  computes.
\<close>

lemma exact_minimum_base_only_at_track_minimum:
  assumes "track_min_elevation tr = Inr m" and "0 < elevation_multiplier config"
    and "min_computed_elevation geod config tr = Some (base_height config)"
  shows "\<exists>p\<in>set (cross_section_points geod config tr). elevation p = m"
proof -
  let ?csp = "cross_section_points geod config tr"
  let ?E = "computed_elevation config m ` set ?csp"
  have mce: "min_computed_elevation geod config tr
     = (if ?csp = [] then None else Some (Min ?E))"
    by (rule min_computed_elevation_eq [OF assms(1)])
  have ne: "?csp \<noteq> []" using assms(3) mce by (cases "?csp = []") simp_all
  then have "Min ?E = base_height config" using assms(3) mce by simp
  moreover have "Min ?E \<in> ?E" using ne by (intro Min_in) simp_all
  ultimately have "base_height config \<in> ?E" by simp
  then obtain p where p: "p \<in> set ?csp" "computed_elevation config m p = base_height config"
    by (metis (no_types, lifting) image_iff)
  then have "elevation p = m" using assms(2) by (simp add: computed_elevation_def)
  then show ?thesis using p(1) by blast
qed

text \<open>
  Claim C6 as stated: the smallest computed elevation equals the base height exactly when
  the elevation multiplier is positive and the point of smallest elevation is included.
  With multiplier \<open>0\<close> every computed elevation is the base height: here the smallest one is
  the base height \<open>1\<close>, though the multiplier is not positive and the only point with a
  cross-section has elevation 6, above the smallest elevation 5 of the track.
\<close>

theorem zero_multiplier_minimum_is_base:
  "min_computed_elevation grid_inv
     \<lparr>elevation_multiplier = 0, smoothing_interval = 0, base_height = 1, path_width = 2\<rparr>
     \<lparr>segments = [\<lparr>points = [pt 0 0 6, pt 0 1 5]\<rparr>]\<rparr> = Some 1
   \<and> cross_section_points grid_inv
     \<lparr>elevation_multiplier = 0, smoothing_interval = 0, base_height = 1, path_width = 2\<rparr>
     \<lparr>segments = [\<lparr>points = [pt 0 0 6, pt 0 1 5]\<rparr>]\<rparr> = [pt 0 0 6]
   \<and> track_min_elevation \<lparr>segments = [\<lparr>points = [pt 0 0 6, pt 0 1 5]\<rparr>]\<rparr> = Inr 5"
  by (simp add: run_unfold example_unfold)

text \<open>
  Claim C6, amended: in a run that returns, the \<open>z\<close> coordinates of the vertices are, for
  every point with a cross-section in order, \<open>0\<close>, the computed elevation twice, and \<open>0\<close>,
  where the computed elevation is
  \<open>base_height + (elevation p - m) * elevation_multiplier\<close> and \<open>m\<close> is the smallest
  elevation of all points of all segments of the track. With a multiplier \<open>\<ge> 0\<close> every
  computed elevation is at least the base height, and the smallest computed elevation is
  the base height whenever a point of elevation \<open>m\<close> has a cross-section; with multiplier
  \<open>0\<close> it is the base height whenever there is a cross-section. Nothing is stated in the
  other direction: a smallest computed elevation equal to the base height does not tell
  that a point of elevation \<open>m\<close> has a cross-section.
\<close>

theorem elevation_datum:
  assumes "run geod config tr = Inr obj"
  shows "\<exists>m. track_min_elevation tr = Inr m
     \<and> (\<forall>s\<in>set (segments tr). \<forall>p\<in>set (points s). m \<le> elevation p)
     \<and> (\<exists>s\<in>set (segments tr). \<exists>p\<in>set (points s). elevation p = m)
     \<and> map (\<lambda>v. snd (snd v)) (vertices obj)
         = concat (map (\<lambda>p. [0, computed_elevation config m p, computed_elevation config m p, 0])
                       (cross_section_points geod config tr))
     \<and> (0 \<le> elevation_multiplier config \<longrightarrow>
          (\<forall>p\<in>set (cross_section_points geod config tr).
              base_height config \<le> computed_elevation config m p))
     \<and> (0 \<le> elevation_multiplier config
          \<and> (\<exists>p\<in>set (cross_section_points geod config tr). elevation p = m) \<longrightarrow>
          min_computed_elevation geod config tr = Some (base_height config))
     \<and> (elevation_multiplier config = 0 \<and> cross_section_points geod config tr \<noteq> [] \<longrightarrow>
          min_computed_elevation geod config tr = Some (base_height config))"
proof -
  let ?csp = "cross_section_points geod config tr"
  let ?k = "elevation_multiplier config"
  let ?b = "base_height config"
  from run_Inr_shape [OF assms] obtain first others origin ps
    where shape: "segments tr = first # others" "points first = origin # ps"
      "\<forall>s\<in>set (segments tr). points s \<noteq> []" by blast
  have ne: "segments tr \<noteq> []" using shape(1) by simp
  from track_min_elevation_ok [OF ne shape(3)] obtain m
    where m: "track_min_elevation tr = Inr m"
      and lower: "\<forall>s\<in>set (segments tr). \<forall>p\<in>set (points s). m \<le> elevation p"
      and attained: "\<exists>s\<in>set (segments tr). \<exists>p\<in>set (points s). elevation p = m" by blast
  from run_ok [OF shape, of geod config] assms m
  have v: "vertices obj = concat (map (\<lambda>s. get_vertices_for_segment geod config
                                \<lparr>points = smoothed_points geod (smoothing_interval config) s\<rparr>
                                origin m) (segments tr))" by auto
  have z: "map (\<lambda>v. snd (snd v)) (vertices obj)
         = concat (map (\<lambda>p. [0, computed_elevation config m p, computed_elevation config m p, 0]) ?csp)"
    unfolding v z_of_track by (simp add: cross_section_points_def)
  have above: "m \<le> elevation p" if "p \<in> set ?csp" for p
    using cross_section_point_in_track [OF that] lower by blast
  have ge: "?b \<le> computed_elevation config m p" if "0 \<le> ?k" "p \<in> set ?csp" for p
    using above [OF that(2)] that(1) by (simp add: computed_elevation_def)
  have mce: "min_computed_elevation geod config tr
     = (if ?csp = [] then None else Some (Min (computed_elevation config m ` set ?csp)))"
    by (rule min_computed_elevation_eq [OF m])
  have included: "min_computed_elevation geod config tr = Some ?b"
    if k: "0 \<le> ?k" and inc: "\<exists>p\<in>set ?csp. elevation p = m"
  proof -
    let ?E = "computed_elevation config m ` set ?csp"
    from inc obtain p where p: "p \<in> set ?csp" "elevation p = m" by blast
    have "computed_elevation config m p = ?b" using p(2) by (simp add: computed_elevation_def)
    then have "?b \<in> ?E" using p(1) by (metis (no_types, lifting) image_iff)
    moreover have "\<forall>e\<in>?E. ?b \<le> e" using ge k by auto
    ultimately have "Min ?E = ?b" by (intro Min_eqI) auto
    moreover have "?csp \<noteq> []" using p(1) by auto
    ultimately show ?thesis by (simp add: mce)
  qed
  have zero: "min_computed_elevation geod config tr = Some ?b" if "?k = 0" "?csp \<noteq> []"
  proof -
    have "computed_elevation config m ` set ?csp = {?b}"
      using that by (auto simp: computed_elevation_def image_iff neq_Nil_conv)
    then show ?thesis using that(2) by (simp add: mce)
  qed
  show ?thesis
    using m lower attained z ge included zero by blast
qed

text \<open>An instance with multiplier 2, where the point of smallest elevation is the second.\<close>

theorem elevation_datum_witness:
  "run grid_inv
     \<lparr>elevation_multiplier = 2, smoothing_interval = 0, base_height = 1, path_width = 2\<rparr>
     \<lparr>segments = [\<lparr>points = [pt 0 0 6, pt 0 3 5, pt 0 4 7]\<rparr>]\<rparr>
   = Inr \<lparr>vertices = [(1, 0, 0), (1, 0, 3), (- 1, 0, 3), (- 1, 0, 0),
                       (1, 3, 0), (1, 3, 1), (- 1, 3, 1), (- 1, 3, 0)],
            polygons = [[1, 2, 3, 4], [5, 6, 7, 8]]\<rparr>
   \<and> track_min_elevation \<lparr>segments = [\<lparr>points = [pt 0 0 6, pt 0 3 5, pt 0 4 7]\<rparr>]\<rparr> = Inr 5
   \<and> min_computed_elevation grid_inv
        \<lparr>elevation_multiplier = 2, smoothing_interval = 0, base_height = 1, path_width = 2\<rparr>
        \<lparr>segments = [\<lparr>points = [pt 0 0 6, pt 0 3 5, pt 0 4 7]\<rparr>]\<rparr> = Some 1"
  using elevation_datum
          [of grid_inv
              "\<lparr>elevation_multiplier = 2, smoothing_interval = 0, base_height = 1, path_width = 2\<rparr>"
              "\<lparr>segments = [\<lparr>points = [pt 0 0 6, pt 0 3 5, pt 0 4 7]\<rparr>]\<rparr>"]
  by (simp add: run_unfold example_unfold)

end
